theory Spec2Isabelle
  imports Main "HOL-Library.Sublist" "HOL-Library.AList"
begin

section \<open>The browser as the scraper sees it\<close>

text \<open>
  The program drives a browser through Selenium. Every call into the driver either returns
  a value or raises; the exceptions Selenium raises, the \<open>ValueError\<close> of the csv
  writer and the \<open>UnicodeEncodeError\<close> of a print the console cannot encode are all
  subclasses of Python's \<open>Exception\<close>, so each of them is caught by an
  \<open>except Exception\<close> clause. A call that may raise is a value of \<open>error + 'a\<close>,
  with \<open>Inl\<close> for the raise. Python's \<open>None\<close> is \<open>None\<close> of an option type.
\<close>

datatype error =
  TimeoutException
| NoSuchElementException
| StaleElementReferenceException
| WebDriverException
| ValueError
| UnicodeEncodeError

text \<open>
  The pagination control found by \<open>element_to_be_clickable\<close>: what reading its two
  attributes returns, and what the scripted click does.
\<close>

record next_button =
  disabled_attr :: "error + string option"
  aria_disabled_attr :: "error + string option"
  click :: "error + unit"

text \<open>
  One listing page, as observed in one pass of the loop of \<open>get_book_links\<close>: the wait
  for the items, \<open>find_elements\<close> with the \<open>href\<close> read of every element found, and the
  wait for the pagination control.
\<close>

record listing_page =
  items_present :: "error + unit"
  link_elements :: "error + (error + string option) list"
  next_clickable :: "error + next_button"

section \<open>Collecting the links: \<open>get_book_links\<close>\<close>

text \<open>\<open>max_links is not None and len(book_links) >= max_links\<close>\<close>

definition max_reached :: "int option \<Rightarrow> string list \<Rightarrow> bool" where
  "max_reached max_links book_links =
     (case max_links of None \<Rightarrow> False | Some n \<Rightarrow> int (length book_links) \<ge> n)"

text \<open>
  The \<open>for el in link_elements\<close> loop. It ends by running out of elements, by the
  \<open>return\<close> at the limit, or by an exception of \<open>get_attribute\<close>; the list
  \<open>book_links\<close> is mutated in place, so each way out leaves the list as built so far.
\<close>

datatype for_exit = Completed | MaxReached | Failed error

fun collect_hrefs ::
  "int option \<Rightarrow> (error + string option) list \<Rightarrow> string list \<Rightarrow> for_exit \<times> string list" where
  "collect_hrefs max_links [] book_links = (Completed, book_links)"
| "collect_hrefs max_links (el # els) book_links =
     (case el of
        Inl e \<Rightarrow> (Failed e, book_links)
      | Inr None \<Rightarrow> collect_hrefs max_links els book_links
      | Inr (Some href) \<Rightarrow>
          if href \<noteq> [] \<and> href \<notin> set book_links then
            (let book_links' = book_links @ [href] in
             if max_reached max_links book_links' then (MaxReached, book_links')
             else collect_hrefs max_links els book_links')
          else collect_hrefs max_links els book_links)"

text \<open>
  The inner \<open>try\<close> around the pagination control: any exception there, and a disabled
  control, leave the loop by \<open>break\<close>; otherwise the control is clicked. The \<open>or\<close>
  short-circuits, so \<open>aria-disabled\<close> is read only when \<open>disabled\<close> is absent.
\<close>

datatype next_exit = Clicked | LastPage | NoNextButton error

definition goto_next :: "error + next_button \<Rightarrow> next_exit" where
  "goto_next w =
     (case w of
        Inl e \<Rightarrow> NoNextButton e
      | Inr b \<Rightarrow>
          (case disabled_attr b of
             Inl e \<Rightarrow> NoNextButton e
           | Inr (Some d) \<Rightarrow> LastPage
           | Inr None \<Rightarrow>
               (case aria_disabled_attr b of
                  Inl e \<Rightarrow> NoNextButton e
                | Inr a \<Rightarrow>
                    if a = Some ''true'' then LastPage
                    else (case click b of Inl e \<Rightarrow> NoNextButton e | Inr u \<Rightarrow> Clicked))))"

text \<open>
  One pass of the \<open>while True\<close> body: either the loop goes on with the list as it is
  now, or the body is left, by \<open>return\<close>, by \<open>break\<close> or by an exception that reaches
  the outer \<open>except Exception\<close>.
\<close>

datatype loop_exit = Returned | Broke | Raised error

datatype pass = Continue "string list" | Leave loop_exit "string list"

definition page_pass :: "int option \<Rightarrow> listing_page \<Rightarrow> string list \<Rightarrow> pass" where
  "page_pass max_links p book_links =
     (case items_present p of
        Inl e \<Rightarrow> Leave (Raised e) book_links
      | Inr u \<Rightarrow>
          (case link_elements p of
             Inl e \<Rightarrow> Leave (Raised e) book_links
           | Inr els \<Rightarrow>
               (case collect_hrefs max_links els book_links of
                  (Failed e, bl) \<Rightarrow> Leave (Raised e) bl
                | (MaxReached, bl) \<Rightarrow> Leave Returned bl
                | (Completed, bl) \<Rightarrow>
                    (case goto_next (next_clickable p) of
                       Clicked \<Rightarrow> Continue bl
                     | LastPage \<Rightarrow> Leave Broke bl
                     | NoNextButton e \<Rightarrow> Leave Broke bl))))"

text \<open>
  The \<open>while True\<close> loop. The driver is the sequence of pages the browser shows, one
  per pass; nothing bounds the number of passes, so the loop is a partial function and
  \<open>None\<close> stands for a run that never leaves it.
\<close>

partial_function (option) while_true ::
  "(nat \<Rightarrow> listing_page) \<Rightarrow> int option \<Rightarrow> nat \<Rightarrow> string list \<Rightarrow> (loop_exit \<times> string list) option" where
  "while_true driver max_links i book_links =
     (case page_pass max_links (driver i) book_links of
        Continue bl \<Rightarrow> while_true driver max_links (Suc i) bl
      | Leave ex bl \<Rightarrow> Some (ex, bl))"

declare while_true.simps [code]

text \<open>
  \<open>get_book_links\<close>: the list starts empty; the \<open>return\<close> inside the loop, the
  \<open>break\<close>s and the outer handler (which only prints) all end in returning
  \<open>book_links\<close>. \<open>Inl\<close> would be an exception reaching the caller.
\<close>

definition get_book_links :: "(nat \<Rightarrow> listing_page) \<Rightarrow> int option \<Rightarrow> (error + string list) option" where
  "get_book_links driver max_links =
     (case while_true driver max_links 0 [] of
        None \<Rightarrow> None
      | Some (Returned, book_links) \<Rightarrow> Some (Inr book_links)
      | Some (Broke, book_links) \<Rightarrow> Some (Inr book_links)
      | Some (Raised e, book_links) \<Rightarrow> Some (Inr book_links))"


text \<open>
  What the specification says of the returned sequence, in its own words: every link
  once, at the place of its first occurrence. \<open>listed_hrefs\<close> are the links the item
  elements carry, in page order (an item without a link, or with an empty one, carries
  none); \<open>seen_before driver n\<close> are the links listed on the pages before page \<open>n\<close>.
\<close>

definition first_seen :: "string list \<Rightarrow> string list" where
  "first_seen xs = rev (remdups (rev xs))"

fun listed_hrefs :: "(error + string option) list \<Rightarrow> string list" where
  "listed_hrefs [] = []"
| "listed_hrefs (Inr (Some href) # els) =
     (if href \<noteq> [] then href # listed_hrefs els else listed_hrefs els)"
| "listed_hrefs (el # els) = listed_hrefs els"

definition page_hrefs :: "listing_page \<Rightarrow> string list" where
  "page_hrefs p = (case link_elements p of Inl e \<Rightarrow> [] | Inr els \<Rightarrow> listed_hrefs els)"

definition seen_before :: "(nat \<Rightarrow> listing_page) \<Rightarrow> nat \<Rightarrow> string list" where
  "seen_before driver n = concat (map (\<lambda>i. page_hrefs (driver i)) [0..<n])"

text \<open>
  \<open>links_at driver max_links k\<close> is the list \<open>book_links\<close> at the start of pass
  \<open>k\<close> of the loop, when the loop gets that far.
\<close>

primrec links_at :: "(nat \<Rightarrow> listing_page) \<Rightarrow> int option \<Rightarrow> nat \<Rightarrow> string list option" where
  "links_at driver max_links 0 = Some []"
| "links_at driver max_links (Suc k) =
     (case links_at driver max_links k of
        None \<Rightarrow> None
      | Some book_links \<Rightarrow>
          (case page_pass max_links (driver k) book_links of
             Continue bl \<Rightarrow> Some bl
           | Leave ex bl \<Rightarrow> None))"

section \<open>Python's strings and dictionaries\<close>

text \<open>
  A string is a list of characters with code points below 256. \<open>str.strip()\<close> removes
  the characters for which \<open>str.isspace\<close> holds from both ends; in that range they are
  the code points 9 to 13, 28 to 32, 133 and 160.
\<close>

definition isspace :: "char \<Rightarrow> bool" where
  "isspace c = (c \<in> set [CHR 0x09, CHR 0x0A, CHR 0x0B, CHR 0x0C, CHR 0x0D, CHR 0x1C, CHR 0x1D,
     CHR 0x1E, CHR 0x1F, CHR 0x20, CHR 0x85, CHR 0xA0])"

definition strip :: "string \<Rightarrow> string" where
  "strip s = rev (dropWhile isspace (rev (dropWhile isspace s)))"

text \<open>
  \<open>s.replace(old, new)\<close> replaces the occurrences of \<open>old\<close> from left to right, each
  search resuming after the previous occurrence; an empty \<open>old\<close> matches before every
  character and at the end.
\<close>

function replace :: "string \<Rightarrow> string \<Rightarrow> string \<Rightarrow> string" where
  "replace old new [] = (if old = [] then new else [])"
| "replace old new (c # cs) =
     (if old = [] then new @ c # replace old new cs
      else if prefix old (c # cs) then new @ replace old new (drop (length old) (c # cs))
      else c # replace old new cs)"
  by pat_completeness auto
termination
  by (relation "measure (\<lambda>(old, new, s). length s)") auto

text \<open>
  A dictionary keeps its keys in insertion order, and storing under a key that is there
  keeps the key's place: an association list, with \<open>AList.update\<close> for \<open>d[k] = v\<close>.
  A dictionary display, a comprehension and \<open>**\<close> unpacking store their items one
  after the other into an empty dictionary.
\<close>

definition dict_of :: "('k \<times> 'v) list \<Rightarrow> ('k \<times> 'v) list" where
  "dict_of items = fold (\<lambda>(k, v) d. AList.update k v d) items []"

section \<open>Reading the detail pages: \<open>scrape_book_details\<close>\<close>

text \<open>
  One detail page, as observed in the pass over its link: the navigation itself, the
  wait for the title, \<open>find_element\<close> of the title with its \<open>text\<close>, \<open>find_element\<close>
  of the rating with its \<open>content\<close> attribute, \<open>find_elements\<close> of the price
  buttons with the \<open>text\<close> of each, and what the console does with the progress line
  \<open>Scraped: title\<close>. That line carries the title, text of the page, and stands inside
  the per-link \<open>try\<close>, after the record is appended; the lines the handlers print are
  taken to be printed.
\<close>

record detail_page =
  navigate :: "error + unit"
  title_present :: "error + unit"
  title_el :: "error + (error + string)"
  rating_meta :: "error + (error + string option)"
  price_buttons :: "error + (error + string) list"
  scraped_print :: "error + unit"

definition formats :: "string list" where
  "formats = [''Hardcover'', ''Paperback'', ''Library Binding'',
     ''Like New'', ''Very Good'', ''Good'', ''Acceptable'', ''New'']"

text \<open>The \<open>try\<close> around the rating: the bare \<open>except\<close> catches whatever is raised.\<close>

definition read_rating :: "detail_page \<Rightarrow> string option" where
  "read_rating p =
     (case rating_meta p of
        Inl e \<Rightarrow> Some ''N/A''
      | Inr (Inl e) \<Rightarrow> Some ''N/A''
      | Inr (Inr content) \<Rightarrow> content)"

text \<open>The body of \<open>for fmt in formats\<close>, for one button text.\<close>

definition match_format :: "string \<Rightarrow> string \<Rightarrow> (string \<times> string) list \<Rightarrow> (string \<times> string) list" where
  "match_format text fmt prices_dict =
     (if prefix fmt text \<or> sublist fmt text then
        (let clean_price = strip (replace fmt [] text)
         in AList.update fmt (if clean_price \<noteq> [] then clean_price else ''N/A'') prices_dict)
      else prices_dict)"

text \<open>
  \<open>for btn in price_buttons\<close>: reading a button's text may raise, which ends the loop
  with the dictionary as updated so far.
\<close>

fun price_loop :: "(error + string) list \<Rightarrow> (string \<times> string) list \<Rightarrow> error option \<times> (string \<times> string) list" where
  "price_loop [] prices_dict = (None, prices_dict)"
| "price_loop (btn # btns) prices_dict =
     (case btn of
        Inl e \<Rightarrow> (Some e, prices_dict)
      | Inr t \<Rightarrow> price_loop btns (fold (match_format (strip t)) formats prices_dict))"

text \<open>The \<open>try\<close> around the prices: \<open>except Exception: pass\<close>.\<close>

definition read_prices :: "detail_page \<Rightarrow> (string \<times> string) list" where
  "read_prices p =
     (let prices_dict = dict_of (map (\<lambda>fmt. (fmt, ''N/A'')) formats)
      in case price_buttons p of
           Inl e \<Rightarrow> prices_dict
         | Inr btns \<Rightarrow> snd (price_loop btns prices_dict))"

text \<open>
  The body of the per-link \<open>try\<close>, up to the record. A row is a dictionary from column
  names to values; a value is a string or, for the rating, possibly Python's \<open>None\<close>.
\<close>

type_synonym row = "(string \<times> string option) list"

definition scrape_page :: "string \<Rightarrow> detail_page \<Rightarrow> error + row" where
  "scrape_page link p =
     (case navigate p of
        Inl e \<Rightarrow> Inl e
      | Inr u \<Rightarrow>
          (case title_present p of
             Inl e \<Rightarrow> Inl e
           | Inr u \<Rightarrow>
               (case title_el p of
                  Inl e \<Rightarrow> Inl e
                | Inr (Inl e) \<Rightarrow> Inl e
                | Inr (Inr t) \<Rightarrow>
                    (let title = strip t;
                         rating = read_rating p;
                         prices_dict = read_prices p
                     in Inr (dict_of ([(''Title'', Some title), (''Rating'', rating), (''URL'', Some link)]
                                @ map (\<lambda>(fmt, price). (fmt, Some price)) prices_dict))))))"

text \<open>
  One pass of the loop over the links: the \<open>try\<close> with its handler. The record is
  appended to \<open>results\<close>, then the progress line is printed; an exception of the body,
  of the print as of what comes before, is caught by the \<open>except Exception\<close> of the
  pass, which only prints. The pass gives the exception its handler caught, if any, and
  \<open>results\<close> as the pass leaves it.
\<close>

definition link_pass :: "string \<Rightarrow> detail_page \<Rightarrow> row list \<Rightarrow> error option \<times> row list" where
  "link_pass link p results =
     (case scrape_page link p of
        Inl e \<Rightarrow> (Some e, results)
      | Inr row \<Rightarrow>
          (let results' = results @ [row]
           in case scraped_print p of
                Inl e \<Rightarrow> (Some e, results')
              | Inr u \<Rightarrow> (None, results')))"

text \<open>
  \<open>for i, link in enumerate(links, start=1)\<close>. The driver gives the page the browser
  shows at the \<open>i\<close>-th navigation, to \<open>link\<close>.
\<close>

fun scrape_loop :: "(nat \<Rightarrow> string \<Rightarrow> detail_page) \<Rightarrow> nat \<Rightarrow> string list \<Rightarrow> row list \<Rightarrow> row list" where
  "scrape_loop driver i [] results = results"
| "scrape_loop driver i (link # links) results =
     scrape_loop driver (Suc i) links (snd (link_pass link (driver i link) results))"

text \<open>
  \<open>links[:max_links]\<close>: a slice bound that is negative counts from the end of the list.
\<close>

definition limit_links :: "string list \<Rightarrow> int option \<Rightarrow> string list" where
  "limit_links links max_links =
     (case max_links of
        None \<Rightarrow> links
      | Some n \<Rightarrow> if 0 \<le> n then take (nat n) links else take (nat (int (length links) + n)) links)"

definition scrape_book_details :: "(nat \<Rightarrow> string \<Rightarrow> detail_page) \<Rightarrow> string list \<Rightarrow> int option \<Rightarrow> row list" where
  "scrape_book_details driver links max_links = scrape_loop driver 1 (limit_links links max_links) []"

text \<open>
  The specification's words. \<open>rating_raised\<close>: the rating lookup failed, in
  \<open>find_element\<close> or in \<open>get_attribute\<close>. \<open>rating_failed_or_absent\<close>: it failed, or
  the element has no \<open>content\<close> attribute. \<open>raised_before_record\<close>: the navigation,
  the wait for the title or the reading of the title raises, which are the errors of a
  pass that come before its record exists. \<open>buttons_read\<close>: the texts of the buttons
  the enumeration reads, those before the first button whose text cannot be read.
  \<open>price_of\<close>: the price a button text gives a format it matches.
\<close>

definition rating_raised :: "detail_page \<Rightarrow> bool" where
  "rating_raised p = (case rating_meta p of Inl e \<Rightarrow> True | Inr (Inl e) \<Rightarrow> True | Inr (Inr c) \<Rightarrow> False)"

definition rating_failed_or_absent :: "detail_page \<Rightarrow> bool" where
  "rating_failed_or_absent p =
     (case rating_meta p of
        Inl e \<Rightarrow> True
      | Inr (Inl e) \<Rightarrow> True
      | Inr (Inr None) \<Rightarrow> True
      | Inr (Inr (Some content)) \<Rightarrow> False)"

definition raised_before_record :: "detail_page \<Rightarrow> bool" where
  "raised_before_record p =
     (case navigate p of
        Inl e \<Rightarrow> True
      | Inr u \<Rightarrow>
          (case title_present p of
             Inl e \<Rightarrow> True
           | Inr u \<Rightarrow> (case title_el p of Inl e \<Rightarrow> True | Inr (Inl e) \<Rightarrow> True | Inr (Inr t) \<Rightarrow> False)))"

fun buttons_read :: "(error + string) list \<Rightarrow> string list" where
  "buttons_read [] = []"
| "buttons_read (Inl e # btns) = []"
| "buttons_read (Inr t # btns) = t # buttons_read btns"

definition price_of :: "string \<Rightarrow> string \<Rightarrow> string" where
  "price_of fmt text =
     (let clean_price = strip (replace fmt [] text) in if clean_price \<noteq> [] then clean_price else ''N/A'')"

definition columns :: "string list" where
  "columns = [''Title'', ''Rating'', ''URL'', ''Hardcover'', ''Paperback'', ''Library Binding'',
     ''Like New'', ''Very Good'', ''Good'', ''Acceptable'', ''New'']"

section \<open>Writing the table: \<open>save_to_csv\<close>\<close>

text \<open>
  The file is the list of the lines written, each a list of cells; quoting the cells and
  opening the file are the library's part. \<open>csv.DictWriter\<close> writes, for a row, the
  value under each field name (the empty string for a key the row lacks, and for
  \<open>None\<close>), and raises \<open>ValueError\<close> for a row with a key that is no field name;
  the lines written before stay in the file. The keys of a dictionary are the first
  components of its association list, which holds each key once.
\<close>

definition cell :: "row \<Rightarrow> string \<Rightarrow> string" where
  "cell r key = (case map_of r key of None \<Rightarrow> [] | Some None \<Rightarrow> [] | Some (Some v) \<Rightarrow> v)"

fun writerows :: "string list \<Rightarrow> row list \<Rightarrow> string list list \<Rightarrow> error option \<times> string list list" where
  "writerows fieldnames [] f = (None, f)"
| "writerows fieldnames (r # rs) f =
     (if set (map fst r) \<subseteq> set fieldnames then writerows fieldnames rs (f @ [map (cell r) fieldnames])
      else (Some ValueError, f))"

text \<open>
  \<open>save_to_csv\<close>: \<open>None\<close> when nothing is opened or written; otherwise the exception
  raised, if any, and the file.
\<close>

definition save_to_csv :: "row list \<Rightarrow> (error option \<times> string list list) option" where
  "save_to_csv data =
     (case data of
        [] \<Rightarrow> None
      | first # rest \<Rightarrow> (let keys = map fst first in Some (writerows keys data [keys])))"

section \<open>The browser session: \<open>make_driver\<close>\<close>

text \<open>
  The session is launched from the options alone, and launching it is the browser's
  part: the model gives the options the session is launched with. \<open>Options()\<close> starts
  with no argument and \<open>add_argument\<close> appends one. The line adding \<open>--headless\<close> is
  commented out, and \<open>headless\<close> is read nowhere.
\<close>

record chrome_options =
  arguments :: "string list"

definition Options :: chrome_options where
  "Options = \<lparr>arguments = []\<rparr>"

definition add_argument :: "chrome_options \<Rightarrow> string \<Rightarrow> chrome_options" where
  "add_argument chrome_options argument = chrome_options\<lparr>arguments := arguments chrome_options @ [argument]\<rparr>"

definition make_driver :: "bool \<Rightarrow> chrome_options" where
  "make_driver headless = add_argument Options ''--remote-debugging-port=9222''"

section \<open>Example pages\<close>

text \<open>
  The listing of the specification's scenario: the first page lists A, B and C and has
  an enabled pagination control, the second lists C and D and its control is disabled.
  \<open>stalled_listing\<close> shows the first page and then nothing: the wait for the items
  times out on the second pass.
\<close>

definition next_enabled :: next_button where
  "next_enabled = \<lparr>disabled_attr = Inr None, aria_disabled_attr = Inr None, click = Inr ()\<rparr>"

definition next_disabled :: next_button where
  "next_disabled = \<lparr>disabled_attr = Inr (Some ''true''), aria_disabled_attr = Inr None, click = Inr ()\<rparr>"

definition page_one :: listing_page where
  "page_one = \<lparr>items_present = Inr (),
     link_elements = Inr [Inr (Some ''A''), Inr (Some ''B''), Inr (Some ''C'')],
     next_clickable = Inr next_enabled\<rparr>"

definition page_two :: listing_page where
  "page_two = \<lparr>items_present = Inr (),
     link_elements = Inr [Inr (Some ''C''), Inr (Some ''D'')],
     next_clickable = Inr next_disabled\<rparr>"

definition no_page :: listing_page where
  "no_page = \<lparr>items_present = Inl TimeoutException,
     link_elements = Inr [],
     next_clickable = Inl TimeoutException\<rparr>"

definition two_pages :: "nat \<Rightarrow> listing_page" where
  "two_pages i = (if i = 0 then page_one else page_two)"

definition stalled_listing :: "nat \<Rightarrow> listing_page" where
  "stalled_listing i = (if i = 0 then page_one else no_page)"

text \<open>
  Detail pages: a book with two price buttons; a page with no rating element and no
  button; a page whose rating content is the text N/A; a page whose rating element has
  no content; a page with two buttons for one format; a page whose title never appears;
  a page with a button that cannot be read between two buttons for one format; a page
  that is read in full and whose progress line the console then refuses, as a console
  limited to ASCII does for its title, which ends in the letter of code point 233.
  \<open>shop\<close> shows the first for the link u, the title-less one for the link x and the
  second for every other link; \<open>mute_shop\<close> shows the last for every link. The rows are
  the records expected of the pages; \<open>bare_row\<close> is the record of a page without a
  matching button.
\<close>

definition book_page :: detail_page where
  "book_page = \<lparr>navigate = Inr (), title_present = Inr (), title_el = Inr (Inr '' A Book ''),
     rating_meta = Inr (Inr (Some ''4.5'')),
     price_buttons = Inr [Inr ''Very Good $5'', Inr ''Good $3''],
     scraped_print = Inr ()\<rparr>"

definition bare_page :: detail_page where
  "bare_page = \<lparr>navigate = Inr (), title_present = Inr (), title_el = Inr (Inr ''Bare''),
     rating_meta = Inl NoSuchElementException,
     price_buttons = Inr [],
     scraped_print = Inr ()\<rparr>"

definition na_page :: detail_page where
  "na_page = \<lparr>navigate = Inr (), title_present = Inr (), title_el = Inr (Inr ''Rated''),
     rating_meta = Inr (Inr (Some ''N/A'')),
     price_buttons = Inr [],
     scraped_print = Inr ()\<rparr>"

definition unrated_page :: detail_page where
  "unrated_page = \<lparr>navigate = Inr (), title_present = Inr (), title_el = Inr (Inr ''Unrated''),
     rating_meta = Inr (Inr None),
     price_buttons = Inr [],
     scraped_print = Inr ()\<rparr>"

definition repriced_page :: detail_page where
  "repriced_page = \<lparr>navigate = Inr (), title_present = Inr (), title_el = Inr (Inr ''Twice''),
     rating_meta = Inr (Inr (Some ''3.9'')),
     price_buttons = Inr [Inr ''Good $1'', Inr ''Good $2'', Inr ''New $9''],
     scraped_print = Inr ()\<rparr>"

definition missing_page :: detail_page where
  "missing_page = \<lparr>navigate = Inr (), title_present = Inl TimeoutException,
     title_el = Inl NoSuchElementException,
     rating_meta = Inl NoSuchElementException,
     price_buttons = Inr [],
     scraped_print = Inr ()\<rparr>"

definition stale_page :: detail_page where
  "stale_page = \<lparr>navigate = Inr (), title_present = Inr (), title_el = Inr (Inr ''Stale''),
     rating_meta = Inr (Inr (Some ''4.0'')),
     price_buttons = Inr [Inr ''Good $1'', Inl StaleElementReferenceException, Inr ''Good $2''],
     scraped_print = Inr ()\<rparr>"

definition mute_title :: string where
  "mute_title = ''Caf'' @ [CHR 0xE9]"

definition mute_page :: detail_page where
  "mute_page = \<lparr>navigate = Inr (), title_present = Inr (), title_el = Inr (Inr mute_title),
     rating_meta = Inr (Inr (Some ''4.2'')),
     price_buttons = Inr [],
     scraped_print = Inl UnicodeEncodeError\<rparr>"

definition book_row :: row where
  "book_row =
     [(''Title'', Some ''A Book''), (''Rating'', Some ''4.5''), (''URL'', Some ''u''),
      (''Hardcover'', Some ''N/A''), (''Paperback'', Some ''N/A''),
      (''Library Binding'', Some ''N/A''), (''Like New'', Some ''N/A''),
      (''Very Good'', Some ''$5''), (''Good'', Some ''$3''), (''Acceptable'', Some ''N/A''),
      (''New'', Some ''N/A'')]"

definition bare_row :: "string \<Rightarrow> string \<Rightarrow> string option \<Rightarrow> row" where
  "bare_row title link rating =
     [(''Title'', Some title), (''Rating'', rating), (''URL'', Some link),
      (''Hardcover'', Some ''N/A''), (''Paperback'', Some ''N/A''),
      (''Library Binding'', Some ''N/A''), (''Like New'', Some ''N/A''),
      (''Very Good'', Some ''N/A''), (''Good'', Some ''N/A''), (''Acceptable'', Some ''N/A''),
      (''New'', Some ''N/A'')]"

definition repriced_row :: row where
  "repriced_row =
     [(''Title'', Some ''Twice''), (''Rating'', Some ''3.9''), (''URL'', Some ''u''),
      (''Hardcover'', Some ''N/A''), (''Paperback'', Some ''N/A''),
      (''Library Binding'', Some ''N/A''), (''Like New'', Some ''N/A''),
      (''Very Good'', Some ''N/A''), (''Good'', Some ''$2''), (''Acceptable'', Some ''N/A''),
      (''New'', Some ''$9'')]"

definition stale_row :: row where
  "stale_row =
     [(''Title'', Some ''Stale''), (''Rating'', Some ''4.0''), (''URL'', Some ''u''),
      (''Hardcover'', Some ''N/A''), (''Paperback'', Some ''N/A''),
      (''Library Binding'', Some ''N/A''), (''Like New'', Some ''N/A''),
      (''Very Good'', Some ''N/A''), (''Good'', Some ''$1''), (''Acceptable'', Some ''N/A''),
      (''New'', Some ''N/A'')]"

definition mute_shop :: "nat \<Rightarrow> string \<Rightarrow> detail_page" where
  "mute_shop i link = mute_page"

definition shop :: "nat \<Rightarrow> string \<Rightarrow> detail_page" where
  "shop i link = (if link = ''u'' then book_page else if link = ''x'' then missing_page else bare_page)"

section \<open>Properties of \<open>get_book_links\<close>\<close>

text \<open>
  The loop is a partial function, so its properties are of two kinds: what holds of the
  result of a run that leaves the loop, by the invariant rule below, and that a run does
  leave the loop, by unfolding the loop pass by pass.
\<close>

lemma while_true_invariant:
  assumes run: "while_true d m i acc = Some (ex, bl)"
    and init: "I i acc"
    and step: "\<And>i acc bl. I i acc \<Longrightarrow> page_pass m (d i) acc = Continue bl \<Longrightarrow> I (Suc i) bl"
    and fin: "\<And>i acc ex bl. I i acc \<Longrightarrow> page_pass m (d i) acc = Leave ex bl \<Longrightarrow> Q ex bl"
  shows "Q ex bl"
proof -
  have "d' = d \<and> m' = m \<and> I i acc \<longrightarrow> Q (fst y) (snd y)"
    if "while_true d' m' i acc = Some y" for d' m' y
  proof (rule while_true.raw_induct
      [where P = "\<lambda>d' m' i acc y. d' = d \<and> m' = m \<and> I i acc \<longrightarrow> Q (fst y) (snd y)", OF _ that],
      goal_cases)
    case (1 w d' m' i acc y)
    show ?case
    proof (intro impI, elim conjE)
      assume eq: "d' = d" "m' = m" and inv: "I i acc"
      show "Q (fst y) (snd y)"
      proof (cases "page_pass m (d i) acc")
        case (Continue bl')
        with 1(2) eq have "w d m (Suc i) bl' = Some y" by simp
        from 1(1)[OF this] step[OF inv Continue] show ?thesis by simp
      next
        case (Leave ex' bl')
        with 1(2) eq have "y = (ex', bl')" by simp
        with fin[OF inv Leave] show ?thesis by simp
      qed
    qed
  qed
  from this[OF run] init show ?thesis by simp
qed

text \<open>Whatever way the loop is left, the function returns the list.\<close>

lemma get_book_links_SomeD:
  "get_book_links d m = Some res \<Longrightarrow> \<exists>ex bl. while_true d m 0 [] = Some (ex, bl) \<and> res = Inr bl"
  by (auto simp: get_book_links_def split: option.splits loop_exit.splits prod.splits)

subsection \<open>Deduplication and order\<close>

lemma first_seen_snoc:
  "first_seen (xs @ [x]) = (if x \<in> set xs then first_seen xs else first_seen xs @ [x])"
  by (simp add: first_seen_def)

lemma set_first_seen [simp]: "set (first_seen xs) = set xs"
  by (simp add: first_seen_def)

lemma distinct_first_seen [simp]: "distinct (first_seen xs)"
  by (simp add: first_seen_def)

lemma collect_hrefs_first_seen:
  "collect_hrefs m els (first_seen seen) = (ex, bl) \<Longrightarrow>
   \<exists>ys. prefix ys (listed_hrefs els) \<and> bl = first_seen (seen @ ys) \<and>
        (ex = Completed \<longrightarrow> ys = listed_hrefs els)"
proof (induction els arbitrary: seen)
  case Nil
  then show ?case by auto
next
  case (Cons el els)
  show ?case
  proof (cases el)
    case (Inl e)
    with Cons.prems show ?thesis by (intro exI[of _ "[]"]) auto
  next
    case (Inr h)
    show ?thesis
    proof (cases h)
      case None
      with Inr Cons.prems have "collect_hrefs m els (first_seen seen) = (ex, bl)" by simp
      from Cons.IH[OF this] None Inr show ?thesis by simp
    next
      case (Some href)
      show ?thesis
      proof (cases "href = []")
        case True
        with Some Inr Cons.prems have "collect_hrefs m els (first_seen seen) = (ex, bl)" by simp
        from Cons.IH[OF this] True Some Inr show ?thesis by simp
      next
        case False
        have snoc: "first_seen (seen @ [href]) =
          (if href \<in> set seen then first_seen seen else first_seen seen @ [href])"
          by (rule first_seen_snoc)
        show ?thesis
        proof (cases "href \<notin> set seen \<and> max_reached m (first_seen seen @ [href])")
          case True
          with False Some Inr Cons.prems have "ex = MaxReached" "bl = first_seen seen @ [href]"
            by (simp_all add: Let_def)
          with True snoc False Some Inr show ?thesis
            by (intro exI[of _ "[href]"]) simp
        next
          case stop: False
          with False Some Inr Cons.prems snoc
          have "collect_hrefs m els (first_seen (seen @ [href])) = (ex, bl)"
            by (auto simp: Let_def split: if_splits)
          from Cons.IH[OF this] obtain ys where
            ys: "prefix ys (listed_hrefs els)" "bl = first_seen ((seen @ [href]) @ ys)"
              "ex = Completed \<longrightarrow> ys = listed_hrefs els" by blast
          with False Some Inr show ?thesis
            by (intro exI[of _ "href # ys"]) simp
        qed
      qed
    qed
  qed
qed

lemma page_pass_Continue_first_seen:
  "page_pass m p (first_seen seen) = Continue bl \<Longrightarrow> bl = first_seen (seen @ page_hrefs p)"
  by (auto simp: page_pass_def page_hrefs_def
      split: sum.splits prod.splits for_exit.splits next_exit.splits
      dest!: collect_hrefs_first_seen)

lemma page_pass_Leave_first_seen:
  "page_pass m p (first_seen seen) = Leave ex bl \<Longrightarrow>
   \<exists>ys. prefix ys (page_hrefs p) \<and> bl = first_seen (seen @ ys)"
  by (auto simp: page_pass_def page_hrefs_def
      split: sum.splits prod.splits for_exit.splits next_exit.splits
      dest!: collect_hrefs_first_seen intro: exI[of _ "[]"])

lemma seen_before_Suc: "seen_before d (Suc n) = seen_before d n @ page_hrefs (d n)"
  by (simp add: seen_before_def)

lemma while_true_first_seen:
  assumes "while_true d m 0 [] = Some (ex, bl)"
  shows "\<exists>n ys. prefix ys (page_hrefs (d n)) \<and> bl = first_seen (seen_before d n @ ys)"
proof (rule while_true_invariant[OF assms,
      where I = "\<lambda>i acc. acc = first_seen (seen_before d i)"], goal_cases)
  case 1
  show ?case by (simp add: seen_before_def first_seen_def)
next
  case (2 i acc bl)
  then show ?case using page_pass_Continue_first_seen[of m "d i" "seen_before d i" bl]
    by (simp add: seen_before_Suc)
next
  case (3 i acc ex bl)
  then show ?case using page_pass_Leave_first_seen[of m "d i" "seen_before d i" ex bl]
    by blast
qed


text \<open>The facts that evaluate the function on the example pages.\<close>

lemmas listing_examples =
  two_pages_def stalled_listing_def page_one_def page_two_def no_page_def
  next_enabled_def next_disabled_def

lemmas listing_eval =
  get_book_links_def while_true.simps page_pass_def goto_next_def max_reached_def

text \<open>
  Claim C3. Whenever \<open>get_book_links\<close> returns, the list returned has no string twice,
  and it is the links of a prefix of what the pages list (all of the pages before some
  page \<open>n\<close>, and the first items of page \<open>n\<close>), each link once, at the place of its
  first occurrence. An item whose link is in the list already leaves the list, and so its
  length, as it was: the loop goes on with the next item.
\<close>

theorem get_book_links_dedup_first_seen:
  "(get_book_links driver max_links = Some (Inr book_links) \<longrightarrow>
      distinct book_links \<and>
      (\<exists>n ys. prefix ys (page_hrefs (driver n)) \<and>
              book_links = first_seen (seen_before driver n @ ys))) \<and>
   (href \<in> set acc \<longrightarrow>
      collect_hrefs max_links (Inr (Some href) # els) acc = collect_hrefs max_links els acc)"
proof (intro conjI impI)
  assume "get_book_links driver max_links = Some (Inr book_links)"
  then obtain ex where run: "while_true driver max_links 0 [] = Some (ex, book_links)"
    by (auto dest: get_book_links_SomeD)
  from while_true_first_seen[OF run]
  show ex: "\<exists>n ys. prefix ys (page_hrefs (driver n)) \<and>
              book_links = first_seen (seen_before driver n @ ys)" .
  then show "distinct book_links" by auto
next
  assume "href \<in> set acc"
  then show "collect_hrefs max_links (Inr (Some href) # els) acc = collect_hrefs max_links els acc"
    by simp
qed

text \<open>
  The scenario of the specification: pages listing A, B, C and then C, D give A, B, C, D.
\<close>

theorem get_book_links_dedup_first_seen_witness:
  "get_book_links two_pages None = Some (Inr [''A'', ''B'', ''C'', ''D'']) \<and>
   distinct [''A'', ''B'', ''C'', ''D''] \<and>
   (\<exists>n ys. prefix ys (page_hrefs (two_pages n)) \<and>
           [''A'', ''B'', ''C'', ''D''] = first_seen (seen_before two_pages n @ ys)) \<and>
   ''C'' \<in> set [''A'', ''B'', ''C''] \<and>
   collect_hrefs None [Inr (Some ''C''), Inr (Some ''D'')] [''A'', ''B'', ''C''] =
     collect_hrefs None [Inr (Some ''D'')] [''A'', ''B'', ''C'']"
proof -
  have run: "get_book_links two_pages None = Some (Inr [''A'', ''B'', ''C'', ''D''])"
    by (simp add: listing_eval listing_examples)
  have dup: "''C'' \<in> set [''A'', ''B'', ''C'']" by simp
  from get_book_links_dedup_first_seen
    [of two_pages None "[''A'', ''B'', ''C'', ''D'']" "''C''" "[''A'', ''B'', ''C'']" "[Inr (Some ''D'')]"]
    run dup
  show ?thesis by blast
qed

subsection \<open>A wait that times out\<close>

lemma links_at_while_true:
  "links_at d m k = Some bl \<Longrightarrow> while_true d m 0 [] = while_true d m k bl"
proof (induction k arbitrary: bl)
  case 0
  then show ?case by simp
next
  case (Suc k)
  from Suc.prems obtain bl0 where
    at: "links_at d m k = Some bl0" and pass: "page_pass m (d k) bl0 = Continue bl"
    by (auto split: option.splits pass.splits)
  from Suc.IH[OF at] have "while_true d m 0 [] = while_true d m k bl0" .
  also from pass have "\<dots> = while_true d m (Suc k) bl"
    by (subst while_true.simps) simp
  finally show ?case .
qed

text \<open>
  Claim C6. If the loop reaches pass \<open>k\<close> with the list \<open>book_links\<close> and the wait for
  the items raises there (a timeout, \<open>e = TimeoutException\<close>, or any other exception),
  then \<open>get_book_links\<close> returns, and it returns that list as its value: the result is
  \<open>Inr\<close>, no exception reaches the caller.
\<close>

theorem get_book_links_wait_timeout:
  assumes "links_at driver max_links k = Some book_links"
    and "items_present (driver k) = Inl e"
  shows "get_book_links driver max_links = Some (Inr book_links)"
proof -
  from assms(2) have "page_pass max_links (driver k) book_links = Leave (Raised e) book_links"
    by (simp add: page_pass_def)
  then have "while_true driver max_links k book_links = Some (Raised e, book_links)"
    by (subst while_true.simps) simp
  with links_at_while_true[OF assms(1)]
  show ?thesis by (simp add: get_book_links_def)
qed

theorem get_book_links_wait_timeout_witness:
  "links_at stalled_listing None 1 = Some [''A'', ''B'', ''C''] \<and>
   items_present (stalled_listing 1) = Inl TimeoutException \<and>
   get_book_links stalled_listing None = Some (Inr [''A'', ''B'', ''C''])"
proof -
  have at: "links_at stalled_listing None 1 = Some [''A'', ''B'', ''C'']"
    by (simp add: listing_eval listing_examples)
  have wait: "items_present (stalled_listing 1) = Inl TimeoutException"
    by (simp add: listing_examples)
  from get_book_links_wait_timeout[OF at wait] at wait show ?thesis by simp
qed

subsection \<open>The limit\<close>

text \<open>
  Claim C1. The limit is tested only after a link has been appended, so with
  \<open>max_links = 0\<close> the function returns one link where the listing has one: on the pages
  of the scenario it returns the list of A alone, which is longer than the limit.
\<close>

theorem get_book_links_max_zero:
  "get_book_links two_pages (Some 0) = Some (Inr [''A'']) \<and> \<not> int (length [''A'']) \<le> 0"
  by (simp add: listing_eval listing_examples)

text \<open>
  From \<open>max_links = 1\<close> on the limit holds: the list is shorter than the limit at the
  start of every pass, and the \<open>for\<close> loop returns as soon as it has that length.
\<close>

lemma collect_hrefs_bound:
  "int (length acc) < n \<Longrightarrow> collect_hrefs (Some n) els acc = (ex, bl) \<Longrightarrow>
   (if ex = MaxReached then int (length bl) = n else int (length bl) < n)"
proof (induction els arbitrary: acc)
  case Nil
  then show ?case by auto
next
  case (Cons el els)
  show ?case
  proof (cases "\<exists>href. el = Inr (Some href) \<and> href \<noteq> [] \<and> href \<notin> set acc")
    case True
    then obtain href where el: "el = Inr (Some href)" "href \<noteq> []" "href \<notin> set acc" by blast
    show ?thesis
    proof (cases "max_reached (Some n) (acc @ [href])")
      case True
      with el Cons.prems show ?thesis by (auto simp: Let_def max_reached_def)
    next
      case False
      with el Cons.prems have "collect_hrefs (Some n) els (acc @ [href]) = (ex, bl)"
        by (simp add: Let_def)
      moreover from False have "int (length (acc @ [href])) < n" by (simp add: max_reached_def)
      ultimately show ?thesis by (rule Cons.IH[rotated])
    qed
  next
    case False
    with Cons.prems have "(\<exists>e. el = Inl e \<and> ex = Failed e \<and> bl = acc) \<or> collect_hrefs (Some n) els acc = (ex, bl)"
      by (auto split: sum.splits option.splits if_splits)
    with Cons.IH[OF Cons.prems(1)] Cons.prems(1) show ?thesis by auto
  qed
qed

lemma page_pass_bound:
  assumes "int (length acc) < n"
  shows "page_pass (Some n) p acc = Continue bl \<Longrightarrow> int (length bl) < n"
    and "page_pass (Some n) p acc = Leave ex bl \<Longrightarrow> int (length bl) \<le> n"
  using assms
  by (auto simp: page_pass_def
      split: sum.splits prod.splits for_exit.splits next_exit.splits
      dest!: collect_hrefs_bound)

lemma get_book_links_bound:
  assumes "1 \<le> n" and "get_book_links driver (Some n) = Some (Inr book_links)"
  shows "int (length book_links) \<le> n"
proof -
  from assms(2) obtain ex where run: "while_true driver (Some n) 0 [] = Some (ex, book_links)"
    by (auto dest: get_book_links_SomeD)
  show ?thesis
  proof (rule while_true_invariant[OF run, where I = "\<lambda>i acc. int (length acc) < n"], goal_cases)
    case 1
    from assms(1) show ?case by simp
  next
    case (2 i acc bl)
    then show ?case by (rule page_pass_bound(1))
  next
    case (3 i acc ex bl)
    then show ?case by (rule page_pass_bound(2))
  qed
qed


section \<open>Properties of \<open>scrape_book_details\<close>\<close>

text \<open>
  What a pass leaves in \<open>results\<close> depends on the record alone, not on the print that
  follows it.
\<close>

lemma snd_link_pass [simp]:
  "snd (link_pass link p results) =
     (case scrape_page link p of Inl e \<Rightarrow> results | Inr row \<Rightarrow> results @ [row])"
  by (simp add: link_pass_def Let_def split: sum.splits)

subsection \<open>Dictionaries with distinct keys\<close>

lemma update_fresh: "k \<notin> fst ` set al \<Longrightarrow> AList.update k v al = al @ [(k, v)]"
  by (induction al) auto

lemma fold_update_distinct:
  "distinct (map fst (acc @ items)) \<Longrightarrow>
   fold (\<lambda>(k, v) d. AList.update k v d) items acc = acc @ items"
proof (induction items arbitrary: acc)
  case Nil
  then show ?case by simp
next
  case (Cons kv items)
  obtain k v where kv: "kv = (k, v)" by (cases kv)
  from Cons.prems kv have fresh: "k \<notin> fst ` set acc" by auto
  from Cons.prems kv have "distinct (map fst ((acc @ [(k, v)]) @ items))" by simp
  from Cons.IH[OF this] kv fresh show ?case by (simp add: update_fresh)
qed

lemma dict_of_distinct: "distinct (map fst items) \<Longrightarrow> dict_of items = items"
  using fold_update_distinct[of "[]" items] by (simp add: dict_of_def)

subsection \<open>The keys of a row\<close>

lemma distinct_formats: "distinct formats"
  by (simp add: formats_def)

lemma distinct_columns: "distinct columns"
  by (simp add: columns_def)

lemma columns_formats: "columns = [''Title'', ''Rating'', ''URL''] @ formats"
  by (simp add: columns_def formats_def)

lemma formats_not_fixed:
  "fmt \<in> set formats \<Longrightarrow> fmt \<noteq> ''Title'' \<and> fmt \<noteq> ''Rating'' \<and> fmt \<noteq> ''URL''"
  by (auto simp: formats_def)

lemma prices_dict_init:
  "dict_of (map (\<lambda>fmt. (fmt, ''N/A'')) formats) = map (\<lambda>fmt. (fmt, ''N/A'')) formats"
  by (rule dict_of_distinct) (simp add: comp_def distinct_formats)

lemma match_format_keys:
  "fmt \<in> set (map fst d) \<Longrightarrow> map fst (match_format text fmt d) = map fst d"
  by (simp add: match_format_def Let_def update_keys)

lemma fold_match_format_keys:
  "set fmts \<subseteq> set (map fst d) \<Longrightarrow> map fst (fold (match_format text) fmts d) = map fst d"
proof (induction fmts arbitrary: d)
  case Nil
  then show ?case by simp
next
  case (Cons f fmts)
  from Cons.prems have keys: "map fst (match_format text f d) = map fst d"
    by (intro match_format_keys) simp
  with Cons.prems have "set fmts \<subseteq> set (map fst (match_format text f d))" by simp
  from Cons.IH[OF this] keys show ?case by simp
qed

lemma price_loop_keys:
  "set formats \<subseteq> set (map fst d) \<Longrightarrow> map fst (snd (price_loop btns d)) = map fst d"
proof (induction btns arbitrary: d)
  case Nil
  then show ?case by simp
next
  case (Cons btn btns)
  show ?case
  proof (cases btn)
    case (Inl e)
    then show ?thesis by simp
  next
    case (Inr t)
    from Cons.prems have keys: "map fst (fold (match_format (strip t)) formats d) = map fst d"
      by (rule fold_match_format_keys)
    with Cons.prems have "set formats \<subseteq> set (map fst (fold (match_format (strip t)) formats d))"
      by simp
    from Cons.IH[OF this] keys Inr show ?thesis by simp
  qed
qed

lemma read_prices_keys: "map fst (read_prices p) = formats"
proof -
  let ?init = "map (\<lambda>fmt. (fmt, ''N/A'')) formats"
  have init: "map fst ?init = formats"
    by (simp add: comp_def)
  then have "set formats \<subseteq> set (map fst ?init)"
    by simp
  from price_loop_keys[OF this] init
  have loop: "map fst (snd (price_loop btns ?init)) = formats" for btns
    by simp
  show ?thesis
  proof (cases "price_buttons p")
    case (Inl e)
    with init show ?thesis by (simp add: read_prices_def prices_dict_init)
  next
    case (Inr btns)
    with loop[of btns] show ?thesis by (simp add: read_prices_def prices_dict_init)
  qed
qed

subsection \<open>The prices of a row\<close>

lemma map_of_match_format:
  "map_of (match_format text f d) fmt =
     (if f = fmt \<and> (prefix fmt text \<or> sublist fmt text) then Some (price_of fmt text)
      else map_of d fmt)"
  by (simp add: match_format_def price_of_def Let_def update_conv')

lemma map_of_fold_match_format:
  "map_of (fold (match_format text) fmts d) fmt =
     (if fmt \<in> set fmts \<and> (prefix fmt text \<or> sublist fmt text) then Some (price_of fmt text)
      else map_of d fmt)"
  by (induction fmts arbitrary: d) (auto simp: map_of_match_format)

lemma price_loop_unmatched:
  "\<forall>t. Inr t \<in> set btns \<longrightarrow> \<not> (prefix fmt (strip t) \<or> sublist fmt (strip t)) \<Longrightarrow>
   map_of (snd (price_loop btns d)) fmt = map_of d fmt"
proof (induction btns arbitrary: d)
  case Nil
  then show ?case by simp
next
  case (Cons btn btns)
  show ?case
  proof (cases btn)
    case (Inl e)
    then show ?thesis by simp
  next
    case (Inr t)
    with Cons.prems have no: "\<not> (prefix fmt (strip t) \<or> sublist fmt (strip t))" by simp
    from Cons.prems have "\<forall>t. Inr t \<in> set btns \<longrightarrow> \<not> (prefix fmt (strip t) \<or> sublist fmt (strip t))"
      by simp
    from Cons.IH[OF this] no Inr show ?thesis by (simp add: map_of_fold_match_format)
  qed
qed

lemma price_loop_read:
  "price_loop (map Inr ts @ rest) d = price_loop rest (snd (price_loop (map Inr ts) d))"
  by (induction ts arbitrary: d) simp_all

lemma price_loop_last_match:
  assumes "fmt \<in> set formats"
    and "prefix fmt (strip t) \<or> sublist fmt (strip t)"
    and "\<forall>u. Inr u \<in> set rest \<longrightarrow> \<not> (prefix fmt (strip u) \<or> sublist fmt (strip u))"
  shows "map_of (snd (price_loop (map Inr ts @ Inr t # rest) d)) fmt = Some (price_of fmt (strip t))"
proof -
  let ?d = "snd (price_loop (map Inr ts) d)"
  have "price_loop (map Inr ts @ Inr t # rest) d =
        price_loop rest (fold (match_format (strip t)) formats ?d)"
    by (simp add: price_loop_read[of ts "Inr t # rest"])
  with price_loop_unmatched[OF assms(3)] assms(1,2) show ?thesis
    by (simp add: map_of_fold_match_format)
qed

lemma price_loop_buttons_read:
  "snd (price_loop btns d) = snd (price_loop (map Inr (buttons_read btns)) d)"
proof (induction btns arbitrary: d)
  case Nil
  then show ?case by simp
next
  case (Cons btn btns)
  then show ?case by (cases btn) simp_all
qed

subsection \<open>The row of a page\<close>

lemma scrape_page_row:
  assumes "scrape_page link p = Inr row"
  shows "\<exists>t. title_el p = Inr (Inr t) \<and>
     row = [(''Title'', Some (strip t)), (''Rating'', read_rating p), (''URL'', Some link)]
           @ map (\<lambda>(fmt, price). (fmt, Some price)) (read_prices p)"
proof -
  have keys: "map fst ([(''Title'', x), (''Rating'', y), (''URL'', z)]
      @ map (\<lambda>(fmt, price). (fmt, Some price)) (read_prices p)) = columns" for x y z :: "string option"
    using read_prices_keys[of p] by (simp add: columns_formats comp_def case_prod_unfold)
  have "dict_of ([(''Title'', x), (''Rating'', y), (''URL'', z)]
      @ map (\<lambda>(fmt, price). (fmt, Some price)) (read_prices p)) =
      [(''Title'', x), (''Rating'', y), (''URL'', z)]
      @ map (\<lambda>(fmt, price). (fmt, Some price)) (read_prices p)" for x y z :: "string option"
    by (rule dict_of_distinct) (simp only: keys distinct_columns)
  with assms show ?thesis
    by (auto simp: scrape_page_def Let_def split: sum.splits)
qed

lemma scrape_page_keys: "scrape_page link p = Inr row \<Longrightarrow> map fst row = columns"
  using read_prices_keys[of p]
  by (auto simp: columns_formats comp_def case_prod_unfold dest!: scrape_page_row)

lemma scrape_page_rating:
  "scrape_page link p = Inr row \<Longrightarrow> map_of row ''Rating'' = Some (read_rating p)"
  by (auto dest!: scrape_page_row)

lemma scrape_page_price:
  assumes "scrape_page link p = Inr row" and "fmt \<in> set formats"
  shows "map_of row fmt = map_option Some (map_of (read_prices p) fmt)"
proof -
  from formats_not_fixed[OF assms(2)] scrape_page_row[OF assms(1)] show ?thesis
    by (auto simp: map_of_map)
qed

lemma read_prices_init:
  "fmt \<in> set formats \<Longrightarrow> map_of (map (\<lambda>fmt. (fmt, ''N/A'')) formats) fmt = Some ''N/A''"
  by (simp add: map_of_map_restrict)


text \<open>
  Every record \<open>scrape_book_details\<close> returns is the record \<open>scrape_page\<close> makes of
  one of the links at some navigation, so what is proved below of the records of
  \<open>scrape_page\<close> holds of every record returned.
\<close>

lemma scrape_loop_rows:
  "row \<in> set (scrape_loop d i links results) \<Longrightarrow>
   row \<in> set results \<or> (\<exists>j link. link \<in> set links \<and> scrape_page link (d j link) = Inr row)"
proof (induction links arbitrary: i results)
  case Nil
  then show ?case by simp
next
  case (Cons link links)
  show ?case
  proof (cases "scrape_page link (d i link)")
    case (Inl e)
    with Cons.prems have "row \<in> set (scrape_loop d (Suc i) links results)" by simp
    from Cons.IH[OF this] show ?thesis by auto
  next
    case (Inr r)
    with Cons.prems have "row \<in> set (scrape_loop d (Suc i) links (results @ [r]))" by simp
    from Cons.IH[OF this] Inr show ?thesis by auto
  qed
qed

lemma set_limit_links: "set (limit_links links max_links) \<subseteq> set links"
  by (auto simp: limit_links_def split: option.splits dest: in_set_takeD)

lemma scrape_book_details_rows:
  assumes "row \<in> set (scrape_book_details d links max_links)"
  shows "\<exists>j link. link \<in> set links \<and> scrape_page link (d j link) = Inr row"
proof -
  from assms scrape_loop_rows[of row d 1 "limit_links links max_links" "[]"]
  obtain j link where "link \<in> set (limit_links links max_links)"
    and "scrape_page link (d j link) = Inr row"
    by (auto simp: scrape_book_details_def)
  with set_limit_links[of links max_links] show ?thesis by blast
qed

subsection \<open>The records of the example pages\<close>

lemma scrape_page_book_page: "scrape_page ''u'' book_page = Inr book_row"
  by code_simp

lemma scrape_page_bare_page:
  "scrape_page ''v'' bare_page = Inr (bare_row ''Bare'' ''v'' (Some ''N/A''))"
  by code_simp

lemma scrape_page_na_page:
  "scrape_page ''u'' na_page = Inr (bare_row ''Rated'' ''u'' (Some ''N/A''))"
  by code_simp

lemma scrape_page_unrated_page:
  "scrape_page ''u'' unrated_page = Inr (bare_row ''Unrated'' ''u'' None)"
  by code_simp

lemma scrape_page_repriced_page: "scrape_page ''u'' repriced_page = Inr repriced_row"
  by code_simp

lemma scrape_page_missing_page: "scrape_page ''x'' missing_page = Inl TimeoutException"
  by code_simp

lemma scrape_page_stale_page: "scrape_page ''u'' stale_page = Inr stale_row"
  by code_simp

lemma scrape_page_mute_page:
  "scrape_page ''u'' mute_page = Inr (bare_row mute_title ''u'' (Some ''4.2''))"
  by code_simp

subsection \<open>The price buttons\<close>




text \<open>
  Claim C4. The keys of every record are Title, Rating, URL and the eight formats, in
  this order, whatever the price buttons are. With no button, all eight formats hold
  N/A; and a format that holds anything else is matched by the text of some button.
\<close>

theorem scrape_page_schema:
  assumes "scrape_page link p = Inr row"
  shows "map fst row = columns \<and>
    (price_buttons p = Inr [] \<longrightarrow> (\<forall>fmt\<in>set formats. map_of row fmt = Some (Some ''N/A''))) \<and>
    (\<forall>fmt\<in>set formats. map_of row fmt \<noteq> Some (Some ''N/A'') \<longrightarrow>
       (\<exists>btns t. price_buttons p = Inr btns \<and> Inr t \<in> set btns \<and>
                 (prefix fmt (strip t) \<or> sublist fmt (strip t))))"
proof (intro conjI impI ballI)
  show "map fst row = columns" using assms by (rule scrape_page_keys)
next
  fix fmt assume none: "price_buttons p = Inr []" and fmt: "fmt \<in> set formats"
  from none have "read_prices p = map (\<lambda>fmt. (fmt, ''N/A'')) formats"
    by (simp add: read_prices_def prices_dict_init)
  with scrape_page_price[OF assms fmt] read_prices_init[OF fmt]
  show "map_of row fmt = Some (Some ''N/A'')" by simp
next
  fix fmt assume fmt: "fmt \<in> set formats" and differs: "map_of row fmt \<noteq> Some (Some ''N/A'')"
  show "\<exists>btns t. price_buttons p = Inr btns \<and> Inr t \<in> set btns \<and>
                 (prefix fmt (strip t) \<or> sublist fmt (strip t))"
  proof (rule ccontr)
    assume no: "\<not> ?thesis"
    have "map_of (read_prices p) fmt = Some ''N/A''"
    proof (cases "price_buttons p")
      case (Inl e)
      with read_prices_init[OF fmt] show ?thesis
        by (simp add: read_prices_def prices_dict_init)
    next
      case (Inr btns)
      with no have "\<forall>t. Inr t \<in> set btns \<longrightarrow> \<not> (prefix fmt (strip t) \<or> sublist fmt (strip t))"
        by blast
      from price_loop_unmatched[OF this] Inr read_prices_init[OF fmt] show ?thesis
        by (simp add: read_prices_def prices_dict_init)
    qed
    with scrape_page_price[OF assms fmt] differs show False by simp
  qed
qed

theorem scrape_page_schema_witness:
  "scrape_page ''v'' bare_page = Inr (bare_row ''Bare'' ''v'' (Some ''N/A'')) \<and>
   map fst (bare_row ''Bare'' ''v'' (Some ''N/A'')) = columns \<and>
   price_buttons bare_page = Inr [] \<and>
   map (map_of (bare_row ''Bare'' ''v'' (Some ''N/A''))) formats = replicate 8 (Some (Some ''N/A'')) \<and>
   scrape_page ''u'' book_page = Inr book_row \<and>
   map fst book_row = columns \<and>
   ''Good'' \<in> set formats \<and>
   map_of book_row ''Good'' \<noteq> Some (Some ''N/A'') \<and>
   (\<exists>btns t. price_buttons book_page = Inr btns \<and> Inr t \<in> set btns \<and>
      (prefix ''Good'' (strip t) \<or> sublist ''Good'' (strip t)))"
proof -
  have none: "price_buttons bare_page = Inr []" by (simp add: bare_page_def)
  have good: "''Good'' \<in> set formats" by (simp add: formats_def)
  have differs: "map_of book_row ''Good'' \<noteq> Some (Some ''N/A'')"
    by (simp add: book_row_def)
  note bare = scrape_page_schema[OF scrape_page_bare_page]
  note book = scrape_page_schema[OF scrape_page_book_page]
  from bare none have b1: "map fst (bare_row ''Bare'' ''v'' (Some ''N/A'')) = columns"
    and b2: "\<forall>fmt\<in>set formats. map_of (bare_row ''Bare'' ''v'' (Some ''N/A'')) fmt = Some (Some ''N/A'')"
    by blast+
  from book good differs have k1: "map fst book_row = columns"
    and k2: "\<exists>btns t. price_buttons book_page = Inr btns \<and> Inr t \<in> set btns \<and>
      (prefix ''Good'' (strip t) \<or> sublist ''Good'' (strip t))"
    by blast+
  from b2 have b3: "map (map_of (bare_row ''Bare'' ''v'' (Some ''N/A''))) formats =
      replicate 8 (Some (Some ''N/A''))"
    by (simp add: formats_def numeral_eq_Suc)
  from scrape_page_bare_page b1 none b3 scrape_page_book_page k1 good differs k2
  show ?thesis by blast
qed

text \<open>
  Claim C10, as stated, fails when a button between two matching ones cannot be read:
  the exception ends the enumeration, so of the buttons Good $1, an unreadable one and
  Good $2 the record keeps the price of the first, not of the last.
\<close>

theorem last_button_counterexample:
  "price_buttons stale_page =
     Inr [Inr ''Good $1'', Inl StaleElementReferenceException, Inr ''Good $2''] \<and>
   (prefix ''Good'' (strip ''Good $1'') \<or> sublist ''Good'' (strip ''Good $1'')) \<and>
   (prefix ''Good'' (strip ''Good $2'') \<or> sublist ''Good'' (strip ''Good $2'')) \<and>
   scrape_page ''u'' stale_page = Inr stale_row \<and>
   map_of stale_row ''Good'' = Some (Some ''$1'') \<and>
   price_of ''Good'' (strip ''Good $2'') = ''$2''"
proof -
  have btns: "price_buttons stale_page =
      Inr [Inr ''Good $1'', Inl StaleElementReferenceException, Inr ''Good $2'']"
    by (simp add: stale_page_def)
  have first: "prefix ''Good'' (strip ''Good $1'') \<or> sublist ''Good'' (strip ''Good $1'')"
    by code_simp
  have last: "prefix ''Good'' (strip ''Good $2'') \<or> sublist ''Good'' (strip ''Good $2'')"
    by code_simp
  have kept: "map_of stale_row ''Good'' = Some (Some ''$1'')"
    by (simp add: stale_row_def)
  have price: "price_of ''Good'' (strip ''Good $2'') = ''$2''" by code_simp
  from btns first last scrape_page_stale_page kept price show ?thesis by blast
qed

text \<open>
  Claim C10, amended. Of the buttons the enumeration reads (those before the first
  button whose text cannot be read), the last one whose text matches a format sets the
  format's price in the record, whatever the buttons before it stored there (a price, or
  the default N/A).
\<close>

theorem scrape_page_last_button_wins:
  assumes "price_buttons p = Inr btns"
    and "buttons_read btns = ts @ t # ts'"
    and "fmt \<in> set formats"
    and "prefix fmt (strip t) \<or> sublist fmt (strip t)"
    and "\<forall>u\<in>set ts'. \<not> (prefix fmt (strip u) \<or> sublist fmt (strip u))"
    and "scrape_page link p = Inr row"
  shows "map_of row fmt = Some (Some (price_of fmt (strip t)))"
proof -
  let ?init = "map (\<lambda>fmt. (fmt, ''N/A'')) formats"
  from assms(1) have "read_prices p = snd (price_loop btns ?init)"
    by (simp add: read_prices_def prices_dict_init)
  also have "\<dots> = snd (price_loop (map Inr (buttons_read btns)) ?init)"
    by (rule price_loop_buttons_read)
  also from assms(2) have "\<dots> = snd (price_loop (map Inr ts @ Inr t # map Inr ts') ?init)"
    by simp
  finally have prices: "read_prices p = snd (price_loop (map Inr ts @ Inr t # map Inr ts') ?init)" .
  from assms(5) have "\<forall>u. Inr u \<in> set (map Inr ts' :: (error + string) list) \<longrightarrow>
      \<not> (prefix fmt (strip u) \<or> sublist fmt (strip u))"
    by auto
  from price_loop_last_match[OF assms(3,4) this] prices
  have "map_of (read_prices p) fmt = Some (price_of fmt (strip t))" by simp
  with scrape_page_price[OF assms(6,3)] show ?thesis by simp
qed

theorem scrape_page_last_button_wins_witness:
  "price_buttons repriced_page = Inr [Inr ''Good $1'', Inr ''Good $2'', Inr ''New $9''] \<and>
   buttons_read [Inr ''Good $1'', Inr ''Good $2'', Inr ''New $9''] =
     [''Good $1''] @ ''Good $2'' # [''New $9''] \<and>
   ''Good'' \<in> set formats \<and>
   (prefix ''Good'' (strip ''Good $1'') \<or> sublist ''Good'' (strip ''Good $1'')) \<and>
   (prefix ''Good'' (strip ''Good $2'') \<or> sublist ''Good'' (strip ''Good $2'')) \<and>
   \<not> (prefix ''Good'' (strip ''New $9'') \<or> sublist ''Good'' (strip ''New $9'')) \<and>
   scrape_page ''u'' repriced_page = Inr repriced_row \<and>
   map_of repriced_row ''Good'' = Some (Some ''$2'') \<and>
   price_of ''Good'' (strip ''Good $2'') = ''$2''"
proof -
  have btns: "price_buttons repriced_page = Inr [Inr ''Good $1'', Inr ''Good $2'', Inr ''New $9'']"
    by (simp add: repriced_page_def)
  have read: "buttons_read [Inr ''Good $1'', Inr ''Good $2'', Inr ''New $9''] =
      [''Good $1''] @ ''Good $2'' # [''New $9'']"
    by simp
  have good: "''Good'' \<in> set formats" by (simp add: formats_def)
  have first: "prefix ''Good'' (strip ''Good $1'') \<or> sublist ''Good'' (strip ''Good $1'')"
    by code_simp
  have last: "prefix ''Good'' (strip ''Good $2'') \<or> sublist ''Good'' (strip ''Good $2'')"
    by code_simp
  have new: "\<not> (prefix ''Good'' (strip ''New $9'') \<or> sublist ''Good'' (strip ''New $9''))"
    by code_simp
  then have later: "\<forall>u\<in>set [''New $9'']. \<not> (prefix ''Good'' (strip u) \<or> sublist ''Good'' (strip u))"
    by simp
  have price: "price_of ''Good'' (strip ''Good $2'') = ''$2''" by code_simp
  from scrape_page_last_button_wins[OF btns read good last later scrape_page_repriced_page] price
  have "map_of repriced_row ''Good'' = Some (Some ''$2'')" by simp
  with btns read good first last new scrape_page_repriced_page price show ?thesis by blast
qed

subsection \<open>The rating\<close>

text \<open>
  Claim C5, as stated, fails: a page whose rating element has the content N/A gives the
  rating N/A, though the lookup neither failed nor found the value absent.
\<close>

theorem rating_sentinel_counterexample:
  "scrape_page ''u'' na_page = Inr (bare_row ''Rated'' ''u'' (Some ''N/A'')) \<and>
   map_of (bare_row ''Rated'' ''u'' (Some ''N/A'')) ''Rating'' = Some (Some ''N/A'') \<and>
   \<not> rating_failed_or_absent na_page"
proof -
  have "map_of (bare_row ''Rated'' ''u'' (Some ''N/A'')) ''Rating'' = Some (Some ''N/A'')"
    by (simp add: bare_row_def)
  moreover have "\<not> rating_failed_or_absent na_page"
    by (simp add: rating_failed_or_absent_def na_page_def)
  ultimately show ?thesis using scrape_page_na_page by simp
qed

text \<open>
  The other half of the claim is where the code goes wrong. A rating element without a
  \<open>content\<close> attribute makes \<open>get_attribute\<close> return \<open>None\<close> and nothing is raised,
  so the record holds \<open>None\<close> where the sentinel is due.
\<close>

lemma rating_absent_is_None:
  "scrape_page ''u'' unrated_page = Inr (bare_row ''Unrated'' ''u'' None) \<and>
   map_of (bare_row ''Unrated'' ''u'' None) ''Rating'' = Some None \<and>
   rating_failed_or_absent unrated_page"
proof -
  have "map_of (bare_row ''Unrated'' ''u'' None) ''Rating'' = Some None"
    by (simp add: bare_row_def)
  moreover have "rating_failed_or_absent unrated_page"
    by (simp add: rating_failed_or_absent_def unrated_page_def)
  ultimately show ?thesis using scrape_page_unrated_page by simp
qed

text \<open>
  Claim C5, amended. The rating of a record is N/A only if the rating lookup failed, the
  value was absent, or the content read is itself the text N/A; and it is N/A whenever
  the lookup raised or the content read is itself the text N/A. What the rating is when
  the element has no content is left open.
\<close>

theorem scrape_page_rating_sentinel:
  assumes "scrape_page link p = Inr row"
  shows "(map_of row ''Rating'' = Some (Some ''N/A'') \<longrightarrow>
            rating_failed_or_absent p \<or> rating_meta p = Inr (Inr (Some ''N/A''))) \<and>
         (rating_raised p \<or> rating_meta p = Inr (Inr (Some ''N/A'')) \<longrightarrow>
            map_of row ''Rating'' = Some (Some ''N/A''))"
  using scrape_page_rating[OF assms]
  by (auto simp: read_rating_def rating_raised_def rating_failed_or_absent_def
      split: sum.splits option.splits)

theorem scrape_page_rating_sentinel_witness:
  "scrape_page ''v'' bare_page = Inr (bare_row ''Bare'' ''v'' (Some ''N/A'')) \<and>
   rating_raised bare_page \<and>
   map_of (bare_row ''Bare'' ''v'' (Some ''N/A'')) ''Rating'' = Some (Some ''N/A'') \<and>
   rating_failed_or_absent bare_page \<and>
   scrape_page ''u'' na_page = Inr (bare_row ''Rated'' ''u'' (Some ''N/A'')) \<and>
   rating_meta na_page = Inr (Inr (Some ''N/A'')) \<and>
   map_of (bare_row ''Rated'' ''u'' (Some ''N/A'')) ''Rating'' = Some (Some ''N/A'')"
proof -
  have raised: "rating_raised bare_page" by (simp add: rating_raised_def bare_page_def)
  have other: "rating_meta bare_page \<noteq> Inr (Inr (Some ''N/A''))" by (simp add: bare_page_def)
  have literal: "rating_meta na_page = Inr (Inr (Some ''N/A''))" by (simp add: na_page_def)
  note bare = scrape_page_rating_sentinel[OF scrape_page_bare_page]
  note na = scrape_page_rating_sentinel[OF scrape_page_na_page]
  from bare raised have b1: "map_of (bare_row ''Bare'' ''v'' (Some ''N/A'')) ''Rating'' = Some (Some ''N/A'')"
    by blast
  with bare other have b2: "rating_failed_or_absent bare_page" by blast
  from na literal have n1: "map_of (bare_row ''Rated'' ''u'' (Some ''N/A'')) ''Rating'' = Some (Some ''N/A'')"
    by blast
  from scrape_page_bare_page raised b1 b2 scrape_page_na_page literal n1 show ?thesis by blast
qed

subsection \<open>A link that fails\<close>

lemma scrape_page_Inl_iff: "(\<exists>e. scrape_page link p = Inl e) \<longleftrightarrow> raised_before_record p"
  by (auto simp: scrape_page_def raised_before_record_def Let_def split: sum.splits)

lemma scrape_loop_results:
  "scrape_loop d i links results = results @ scrape_loop d i links []"
proof (induction links arbitrary: i results)
  case Nil
  then show ?case by simp
next
  case (Cons link links)
  show ?case
  proof (cases "scrape_page link (d i link)")
    case (Inl e)
    with Cons.IH[of "Suc i" results] show ?thesis by simp
  next
    case (Inr row)
    with Cons.IH[of "Suc i" "results @ [row]"] Cons.IH[of "Suc i" "[row]"]
    show ?thesis by simp
  qed
qed

lemma scrape_loop_append:
  "scrape_loop d i (xs @ ys) results = scrape_loop d (i + length xs) ys (scrape_loop d i xs results)"
  by (induction xs arbitrary: i results) (auto split: sum.splits)

lemma scrape_loop_skip:
  assumes "raised_before_record (d (i + length before) link)"
  shows "scrape_loop d i (before @ link # after) results =
         scrape_loop d i before results @ scrape_loop d (Suc (i + length before)) after []"
proof -
  from assms obtain e where "scrape_page link (d (i + length before) link) = Inl e"
    using scrape_page_Inl_iff by blast
  then have "scrape_loop d i (before @ link # after) results =
      scrape_loop d (Suc (i + length before)) after (scrape_loop d i before results)"
    by (simp add: scrape_loop_append)
  then show ?thesis
    using scrape_loop_results[of d "Suc (i + length before)" after "scrape_loop d i before results"]
    by simp
qed

text \<open>
  An error of the rating lookup is caught by the handler of the rating: the page
  \<open>bare_page\<close> has no rating element, and its link has its record, with the sentinel.
\<close>

lemma rating_failure_keeps_record:
  "rating_meta bare_page = Inl NoSuchElementException \<and>
   scrape_book_details shop [''v''] None = [bare_row ''Bare'' ''v'' (Some ''N/A'')]"
proof -
  have "shop 1 ''v'' = bare_page" by (simp add: shop_def)
  with scrape_page_bare_page
  have "scrape_book_details shop [''v''] None = [bare_row ''Bare'' ''v'' (Some ''N/A'')]"
    by (simp add: scrape_book_details_def limit_links_def)
  moreover have "rating_meta bare_page = Inl NoSuchElementException"
    by (simp add: bare_page_def)
  ultimately show ?thesis by simp
qed

text \<open>
  If the navigation, the wait for the title or the reading of the title raises for a
  link, the run goes on and its result is the records of the links before it followed by
  the records of the links after it: the link gets no record, and the records of the
  other links are what they are without it.
\<close>

lemma scrape_book_details_skips_link:
  assumes "limit_links links max_links = before @ link # after"
    and "raised_before_record (driver (Suc (length before)) link)"
  shows "scrape_book_details driver links max_links =
         scrape_loop driver 1 before [] @ scrape_loop driver (length before + 2) after []"
  using scrape_loop_skip[of driver 1 before link after "[]"] assms
  by (simp add: scrape_book_details_def)

lemma scrape_book_details_skips_link_example:
  "limit_links [''u'', ''x'', ''v''] None = [''u''] @ ''x'' # [''v''] \<and>
   raised_before_record (shop (Suc (length [''u''])) ''x'') \<and>
   scrape_book_details shop [''u'', ''x'', ''v''] None = [book_row, bare_row ''Bare'' ''v'' (Some ''N/A'')] \<and>
   scrape_loop shop 1 [''u''] [] = [book_row] \<and>
   scrape_loop shop (length [''u''] + 2) [''v''] [] = [bare_row ''Bare'' ''v'' (Some ''N/A'')]"
proof -
  have lim: "limit_links [''u'', ''x'', ''v''] None = [''u''] @ ''x'' # [''v'']"
    by (simp add: limit_links_def)
  have raised: "raised_before_record (shop (Suc (length [''u''])) ''x'')"
    by (simp add: shop_def raised_before_record_def missing_page_def)
  have u: "shop i ''u'' = book_page" and v: "shop i ''v'' = bare_page" for i
    by (simp_all add: shop_def)
  have before: "scrape_loop shop 1 [''u''] [] = [book_row]"
    by (simp add: u scrape_page_book_page)
  have after: "scrape_loop shop (length [''u''] + 2) [''v''] [] = [bare_row ''Bare'' ''v'' (Some ''N/A'')]"
    by (simp add: v scrape_page_bare_page)
  from scrape_book_details_skips_link
    [of "[''u'', ''x'', ''v'']" None "[''u'']" "''x''" "[''v'']" shop, OF lim raised] before after
  have "scrape_book_details shop [''u'', ''x'', ''v''] None = [book_row, bare_row ''Bare'' ''v'' (Some ''N/A'')]"
    by simp
  with lim raised before after show ?thesis by blast
qed

text \<open>
  Claim C7. An error while a link is processed is to leave no record of the link. The
  code appends the record and then prints the progress line, inside the same \<open>try\<close>:
  when that print raises, the handler of the pass catches the exception and reports the
  link as failed, and the record of the link is in the result all the same.
\<close>

theorem scrape_book_details_print_raises:
  "link_pass ''u'' mute_page [] =
     (Some UnicodeEncodeError, [bare_row mute_title ''u'' (Some ''4.2'')]) \<and>
   scrape_book_details mute_shop [''u''] None = [bare_row mute_title ''u'' (Some ''4.2'')]"
proof -
  have print: "scraped_print mute_page = Inl UnicodeEncodeError"
    by (simp add: mute_page_def)
  with scrape_page_mute_page
  have pass: "link_pass ''u'' mute_page [] =
      (Some UnicodeEncodeError, [bare_row mute_title ''u'' (Some ''4.2'')])"
    by (simp add: link_pass_def)
  from scrape_page_mute_page
  have "scrape_book_details mute_shop [''u''] None = [bare_row mute_title ''u'' (Some ''4.2'')]"
    by (simp add: scrape_book_details_def limit_links_def mute_shop_def)
  with pass show ?thesis by simp
qed

subsection \<open>The limit\<close>

text \<open>
  A limit that is not negative cuts the links to that many, so no more are visited and
  no more records come back; a negative limit drops links from the end instead.
\<close>

lemma limit_links_nonneg: "0 \<le> n \<Longrightarrow> limit_links links (Some n) = take (nat n) links"
  by (simp add: limit_links_def)

lemma length_scrape_loop:
  "length (scrape_loop d i links results) \<le> length results + length links"
proof (induction links arbitrary: i results)
  case Nil
  then show ?case by simp
next
  case (Cons link links)
  from Cons.IH[of "Suc i" results] Cons.IH[of "Suc i" "results @ [the_row]" for the_row]
  show ?case by (auto split: sum.splits intro: le_SucI)
qed

lemma scrape_book_details_bound:
  assumes "0 \<le> n"
  shows "length (scrape_book_details d links (Some n)) \<le> nat n"
proof -
  have "length (scrape_book_details d links (Some n)) \<le> length (take (nat n) links)"
    using length_scrape_loop[of d 1 "take (nat n) links" "[]"] assms
    by (simp add: scrape_book_details_def limit_links_nonneg)
  then show ?thesis by simp
qed

lemma limit_links_negative:
  "limit_links [''u'', ''x'', ''v''] (Some (- 1)) = [''u'', ''x'']"
  by (simp add: limit_links_def)

section \<open>Properties of \<open>save_to_csv\<close>\<close>

lemma scrape_loop_keys:
  "\<forall>r\<in>set results. map fst r = columns \<Longrightarrow>
   \<forall>r\<in>set (scrape_loop d i links results). map fst r = columns"
proof (induction links arbitrary: i results)
  case Nil
  then show ?case by simp
next
  case (Cons link links)
  show ?case
  proof (cases "scrape_page link (d i link)")
    case (Inl e)
    with Cons.IH[OF Cons.prems, of "Suc i"] show ?thesis by simp
  next
    case (Inr row)
    with Cons.prems have "\<forall>r\<in>set (results @ [row]). map fst r = columns"
      by (auto dest: scrape_page_keys)
    from Cons.IH[OF this, of "Suc i"] Inr show ?thesis by simp
  qed
qed

lemma scrape_book_details_keys:
  "r \<in> set (scrape_book_details d links max_links) \<Longrightarrow> map fst r = columns"
  using scrape_loop_keys[of "[]" d 1 "limit_links links max_links"]
  by (simp add: scrape_book_details_def)

lemma writerows_same_keys:
  "\<forall>r\<in>set rs. map fst r = keys \<Longrightarrow>
   writerows keys rs f = (None, f @ map (\<lambda>r. map (cell r) keys) rs)"
  by (induction rs arbitrary: f) simp_all

text \<open>
  Claim C8. For the records \<open>scrape_book_details\<close> returns: when there is none,
  \<open>save_to_csv\<close> writes nothing and raises nothing; otherwise the keys of the first
  record are Title, Rating, URL and the eight formats in catalog order, the first line
  written is these names in this order, a line for each record follows, and nothing is
  raised.
\<close>

theorem save_to_csv_header:
  assumes "data = scrape_book_details driver links max_links"
  shows "(data = [] \<longrightarrow> save_to_csv data = None) \<and>
    (data \<noteq> [] \<longrightarrow>
       map fst (hd data) = columns \<and>
       save_to_csv data = Some (None, columns # map (\<lambda>r. map (cell r) columns) data))"
proof (intro conjI impI)
  assume "data = []"
  then show "save_to_csv data = None" by (simp add: save_to_csv_def)
next
  assume ne: "data \<noteq> []"
  from assms have keys: "\<forall>r\<in>set data. map fst r = columns"
    by (auto dest: scrape_book_details_keys)
  with ne show first: "map fst (hd data) = columns" by simp
  from ne obtain r rs where data: "data = r # rs" by (cases data) auto
  with first writerows_same_keys[OF keys, of "[columns]"]
  show "save_to_csv data = Some (None, columns # map (\<lambda>r. map (cell r) columns) data)"
    by (simp add: save_to_csv_def)
qed

theorem save_to_csv_header_witness:
  "scrape_book_details shop [''x''] None = [] \<and>
   save_to_csv [] = None \<and>
   scrape_book_details shop [''u'', ''x''] None = [book_row] \<and>
   [book_row] \<noteq> [] \<and>
   map fst (hd [book_row]) = columns \<and>
   save_to_csv [book_row] = Some (None, [columns, map (cell book_row) columns])"
proof -
  have x: "shop i ''x'' = missing_page" and u: "shop i ''u'' = book_page" for i
    by (simp_all add: shop_def)
  have none: "scrape_book_details shop [''x''] None = []"
    by (simp add: scrape_book_details_def limit_links_def x scrape_page_missing_page)
  have one: "scrape_book_details shop [''u'', ''x''] None = [book_row]"
    by (simp add: scrape_book_details_def limit_links_def x u
        scrape_page_missing_page scrape_page_book_page)
  from save_to_csv_header[OF none[symmetric]] save_to_csv_header[OF one[symmetric]] none one
  show ?thesis by simp
qed

section \<open>Properties of \<open>make_driver\<close>\<close>

text \<open>
  Claim C9. The options of the session do not depend on the \<open>headless\<close> argument: they
  are the debugging port alone, for \<open>True\<close> as for \<open>False\<close>, and \<open>--headless\<close> is
  never among them.
\<close>

theorem make_driver_ignores_headless:
  "make_driver True = make_driver False \<and>
   arguments (make_driver headless) = [''--remote-debugging-port=9222''] \<and>
   ''--headless'' \<notin> set (arguments (make_driver headless))"
  by (simp add: make_driver_def add_argument_def Options_def)

end
